theory Spec2Isabelle
  imports Main "HOL-Library.Word"
begin

section \<open>Bytes, strings and exceptions\<close>

text \<open>
  A Python \<^verbatim>\<open>bytes\<close> or \<^verbatim>\<open>bytearray\<close> value is a list of 8-bit words; iterating over it
  gives integers in 0..255. A Python \<^verbatim>\<open>str\<close> is a list of Unicode code points. The
  exceptions the modelled code can raise are values of \<open>error\<close>.
\<close>

type_synonym byte = "8 word"
type_synonym str = "nat list"

datatype error =
    IndexError | UnicodeDecodeError | AttributeError | OverflowError | UnicodeEncodeError

abbreviation NL :: byte where "NL \<equiv> 10"
abbreviation CR :: byte where "CR \<equiv> 13"
abbreviation TAB :: byte where "TAB \<equiv> 9"
abbreviation COLON :: byte where "COLON \<equiv> 58"

text \<open>An ASCII literal as bytes (\<^verbatim>\<open>b'...'\<close>) and as a string (\<^verbatim>\<open>'...'\<close>).\<close>

definition bytes_of :: "string \<Rightarrow> byte list" where
  "bytes_of cs = map of_char cs"

definition str_of :: "string \<Rightarrow> str" where
  "str_of cs = map of_char cs"

subsection \<open>\<^verbatim>\<open>bytes.decode('utf-8')\<close>\<close>

text \<open>
  Strict UTF-8 decoding as Python does it: shortest form only, no surrogates, nothing
  above U+10FFFF. \<open>None\<close> stands for \<^verbatim>\<open>UnicodeDecodeError\<close>.
\<close>

definition is_cont :: "byte \<Rightarrow> bool" where
  "is_cont c = (128 \<le> c \<and> c \<le> 191)"

definition cont_bits :: "byte \<Rightarrow> nat" where
  "cont_bits c = unat c - 128"

fun utf8_decode :: "byte list \<Rightarrow> str option" where
  "utf8_decode [] = Some []"
| "utf8_decode (b # bs) =
     (if b < 128 then map_option (\<lambda>r. unat b # r) (utf8_decode bs)
      else if 194 \<le> b \<and> b \<le> 223 then
        (case bs of
           c1 # r \<Rightarrow>
             if is_cont c1
             then map_option (\<lambda>t. ((unat b - 192) * 64 + cont_bits c1) # t) (utf8_decode r)
             else None
         | _ \<Rightarrow> None)
      else if 224 \<le> b \<and> b \<le> 239 then
        (case bs of
           c1 # c2 # r \<Rightarrow>
             if (if b = 224 then 160 \<le> c1 \<and> c1 \<le> 191
                 else if b = 237 then 128 \<le> c1 \<and> c1 \<le> 159
                 else is_cont c1) \<and> is_cont c2
             then map_option
                    (\<lambda>t. ((unat b - 224) * 4096 + cont_bits c1 * 64 + cont_bits c2) # t)
                    (utf8_decode r)
             else None
         | _ \<Rightarrow> None)
      else if 240 \<le> b \<and> b \<le> 244 then
        (case bs of
           c1 # c2 # c3 # r \<Rightarrow>
             if (if b = 240 then 144 \<le> c1 \<and> c1 \<le> 191
                 else if b = 244 then 128 \<le> c1 \<and> c1 \<le> 143
                 else is_cont c1) \<and> is_cont c2 \<and> is_cont c3
             then map_option
                    (\<lambda>t. ((unat b - 240) * 262144 + cont_bits c1 * 4096
                          + cont_bits c2 * 64 + cont_bits c3) # t)
                    (utf8_decode r)
             else None
         | _ \<Rightarrow> None)
      else None)"

subsection \<open>Method decorators\<close>

text \<open>
  What a \<^verbatim>\<open>def\<close> in a class body binds, after its decorators have run: a plain
  function, with its \<^verbatim>\<open>__isabstractmethod__\<close> attribute set or not, or a
  \<^verbatim>\<open>staticmethod\<close> object around one. \<^verbatim>\<open>staticmethod\<close> wraps whatever it is given.
  \<^verbatim>\<open>abstractmethod\<close> assigns \<^verbatim>\<open>__isabstractmethod__ = True\<close> on its argument and
  returns it; on a \<^verbatim>\<open>staticmethod\<close> object that attribute is read-only and the
  assignment raises \<^verbatim>\<open>AttributeError\<close>. Decorators run bottom-up, the one nearest the
  \<^verbatim>\<open>def\<close> first.
\<close>

datatype descriptor = PyFunction bool | StaticMethod descriptor

definition staticmethod :: "descriptor \<Rightarrow> error + descriptor" where
  "staticmethod f = Inr (StaticMethod f)"

fun abstractmethod :: "descriptor \<Rightarrow> error + descriptor" where
  "abstractmethod (PyFunction a) = Inr (PyFunction True)"
| "abstractmethod (StaticMethod f) = Inl AttributeError"

definition decorate ::
  "(descriptor \<Rightarrow> error + descriptor) \<Rightarrow> error + descriptor \<Rightarrow> error + descriptor" where
  "decorate d m = (case m of Inl e \<Rightarrow> Inl e | Inr f \<Rightarrow> d f)"

section \<open>The frame decoder (\<^verbatim>\<open>parser.py\<close>)\<close>

text \<open>
  The class statement of \<^verbatim>\<open>Event\<close> declares \<^verbatim>\<open>type\<close> with \<^verbatim>\<open>@staticmethod\<close> above
  \<^verbatim>\<open>@abstractmethod\<close>.
\<close>

definition Event_type :: "error + descriptor" where
  "Event_type = decorate staticmethod (decorate abstractmethod (Inr (PyFunction False)))"

datatype Event =
    TextEvent str str
  | FrameEndEvent bool
  | HexEvent "byte list"

datatype State = IDLE | RECORD_LABEL | RECORD_VALUE | CHECKSUM | RECORD_HEX

text \<open>
  The instance attributes of \<^verbatim>\<open>VEDirectParser\<close>. The three buffers are bytearrays of a
  fixed length; \<open>checksum\<close> is an unbounded Python integer. The source's transition after
  a text field assigns to \<^verbatim>\<open>self._value_len\<close> (one underscore), an attribute distinct from
  \<^verbatim>\<open>self.__value_len\<close> that nothing reads: it is the field \<open>stray_value_len\<close>, absent
  (\<open>None\<close>) until first assigned.
\<close>

record parser =
  label_buf :: "byte list"
  value_buf :: "byte list"
  hex_buf :: "byte list"
  label_len :: nat
  value_len :: nat
  current_index :: nat
  checksum :: int
  state :: State
  stray_value_len :: "nat option"

definition MAX_FIELD_LABEL_LEN :: nat where "MAX_FIELD_LABEL_LEN = 9"
definition MAX_FIELD_VALUE_LEN :: nat where "MAX_FIELD_VALUE_LEN = 33"
definition MAX_HEX_RECORD_LEN :: nat where "MAX_HEX_RECORD_LEN = 100"

text \<open>\<^verbatim>\<open>VEDirectParser.__init__\<close>.\<close>

definition new_parser :: parser where
  "new_parser =
     \<lparr> label_buf = replicate MAX_FIELD_LABEL_LEN 0,
       value_buf = replicate MAX_FIELD_VALUE_LEN 0,
       hex_buf = replicate MAX_HEX_RECORD_LEN 0,
       label_len = 0, value_len = 0, current_index = 0,
       checksum = 0, state = IDLE, stray_value_len = None \<rparr>"

text \<open>
  One iteration of the loop of \<^verbatim>\<open>receive_bytes\<close> is three stages. First, a colon outside
  the CHECKSUM state switches to hex recording.
\<close>

definition hex_switch :: "parser \<Rightarrow> byte \<Rightarrow> parser" where
  "hex_switch p b =
     (if b = COLON \<and> state p \<noteq> CHECKSUM
      then p\<lparr>current_index := 0, state := RECORD_HEX\<rparr>
      else p)"

text \<open>Second, the byte is added to the checksum unless the state is now \<open>RECORD_HEX\<close>.\<close>

definition accumulate :: "parser \<Rightarrow> byte \<Rightarrow> parser" where
  "accumulate p b =
     (if state p \<noteq> RECORD_HEX then p\<lparr>checksum := checksum p + uint b\<rparr> else p)"

text \<open>
  Third, the \<^verbatim>\<open>match\<close> statement: the first case that applies runs, and no case means
  nothing happens. The result is the events yielded, the parser afterwards, and the
  exception raised, if any; an item assignment beyond a buffer's length raises
  \<^verbatim>\<open>IndexError\<close> and leaves the parser as it was at that point. The patterns compare
  against the byte literals; the class constants \<^verbatim>\<open>NEWLINE\<close> and \<^verbatim>\<open>TAB\<close> are used nowhere.
\<close>

type_synonym outcome = "Event list \<times> parser \<times> error option"

definition Checksum_label :: "byte list" where
  "Checksum_label = bytes_of ''Checksum''"

definition dispatch :: "parser \<Rightarrow> byte \<Rightarrow> outcome" where
  "dispatch p b =
     (case state p of
        IDLE \<Rightarrow>
          if b = NL then ([], p\<lparr>state := RECORD_LABEL\<rparr>, None)
          else if b = CR then ([], p, None)
          else ([], p, None)
      | RECORD_LABEL \<Rightarrow>
          if b = TAB \<and> take (current_index p) (label_buf p) = Checksum_label
          then ([], p\<lparr>state := CHECKSUM\<rparr>, None)
          else if b = TAB
          then ([], p\<lparr>label_len := current_index p, current_index := 0,
                      state := RECORD_VALUE\<rparr>, None)
          else if current_index p < length (label_buf p)
          then ([], p\<lparr>label_buf := (label_buf p)[current_index p := b],
                      current_index := current_index p + 1\<rparr>, None)
          else ([], p, Some IndexError)
      | RECORD_VALUE \<Rightarrow>
          if b = CR then ([], p, None)
          else if b = NL
          then (let p1 = p\<lparr>value_len := current_index p\<rparr> in
                case utf8_decode (take (label_len p1) (label_buf p1)) of
                  None \<Rightarrow> ([], p1, Some UnicodeDecodeError)
                | Some l \<Rightarrow>
                    (case utf8_decode (take (value_len p1) (value_buf p1)) of
                       None \<Rightarrow> ([], p1, Some UnicodeDecodeError)
                     | Some v \<Rightarrow>
                         ([TextEvent l v],
                          p1\<lparr>current_index := 0, label_len := 0,
                             stray_value_len := Some 0, state := RECORD_LABEL\<rparr>,
                          None)))
          else if current_index p < length (value_buf p)
          then ([], p\<lparr>value_buf := (value_buf p)[current_index p := b],
                      current_index := current_index p + 1\<rparr>, None)
          else ([], p, Some IndexError)
      | CHECKSUM \<Rightarrow>
          ([FrameEndEvent (checksum p mod 256 = 0)],
           p\<lparr>checksum := 0, state := IDLE\<rparr>, None)
      | RECORD_HEX \<Rightarrow>
          if b = NL then ([HexEvent (take (current_index p) (hex_buf p))], p, None)
          else if b \<noteq> COLON
          then (if current_index p < length (hex_buf p)
                then ([], p\<lparr>hex_buf := (hex_buf p)[current_index p := b],
                            current_index := current_index p + 1\<rparr>, None)
                else ([], p, Some IndexError))
          else ([], p, None))"

definition step :: "parser \<Rightarrow> byte \<Rightarrow> outcome" where
  "step p b = dispatch (accumulate (hex_switch p b) b) b"

text \<open>
  \<^verbatim>\<open>receive_bytes\<close>, with the generator drained: the loop over the input stops at the
  first exception, which reaches the caller after the events yielded before it.
\<close>

fun receive_bytes :: "parser \<Rightarrow> byte list \<Rightarrow> outcome" where
  "receive_bytes p [] = ([], p, None)"
| "receive_bytes p (b # bs) =
     (case step p b of
        (evs, p', Some e) \<Rightarrow> (evs, p', Some e)
      | (evs, p', None) \<Rightarrow>
          (case receive_bytes p' bs of (evs', p'', r) \<Rightarrow> (evs @ evs', p'', r)))"

text \<open>The three parts of an outcome.\<close>

definition events_of :: "outcome \<Rightarrow> Event list" where
  "events_of r = fst r"

definition parser_of :: "outcome \<Rightarrow> parser" where
  "parser_of r = fst (snd r)"

definition raised :: "outcome \<Rightarrow> error option" where
  "raised r = snd (snd r)"

text \<open>
  A caller that feeds the input in chunks, one call of \<^verbatim>\<open>receive_bytes\<close> per chunk on the
  same parser, draining each generator before the next call. An exception ends the
  caller's loop as it ends the loop inside \<^verbatim>\<open>receive_bytes\<close>.
\<close>

fun feed_chunks :: "parser \<Rightarrow> byte list list \<Rightarrow> outcome" where
  "feed_chunks p [] = ([], p, None)"
| "feed_chunks p (c # cs) =
     (case receive_bytes p c of
        (evs, p', Some e) \<Rightarrow> (evs, p', Some e)
      | (evs, p', None) \<Rightarrow>
          (case feed_chunks p' cs of (evs', p'', r) \<Rightarrow> (evs @ evs', p'', r)))"

text \<open>
  The checksum-eligible bytes of an input, in the words of the specification: the bytes
  not consumed while in the hex state, a colon that triggers the switch to the hex state
  being itself excluded.
\<close>

fun eligible :: "parser \<Rightarrow> byte list \<Rightarrow> byte list" where
  "eligible p [] = []"
| "eligible p (b # bs) =
     (if state (hex_switch p b) \<noteq> RECORD_HEX then [b] else []) @
     (case step p b of
        (evs, p', None) \<Rightarrow> eligible p' bs
      | (evs, p', Some e) \<Rightarrow> [])"

definition is_frame_end :: "Event \<Rightarrow> bool" where
  "is_frame_end e = (case e of FrameEndEvent v \<Rightarrow> True | _ \<Rightarrow> False)"

definition is_text :: "Event \<Rightarrow> bool" where
  "is_text e = (case e of TextEvent l v \<Rightarrow> True | _ \<Rightarrow> False)"

section \<open>The hex request encoder (\<^verbatim>\<open>hex_protocol.py\<close>)\<close>

datatype HexRequestType = PING | APP_VERSION | PRODUCT_ID | RESTART | GET | SET | ASYNC

text \<open>The value of each member of the enumeration: the code of one ASCII character.\<close>

fun type_value :: "HexRequestType \<Rightarrow> byte" where
  "type_value PING = of_char CHR ''1''"
| "type_value APP_VERSION = of_char CHR ''3''"
| "type_value PRODUCT_ID = of_char CHR ''4''"
| "type_value RESTART = of_char CHR ''6''"
| "type_value GET = of_char CHR ''7''"
| "type_value SET = of_char CHR ''8''"
| "type_value ASYNC = of_char CHR ''A''"

text \<open>
  The class statement of \<^verbatim>\<open>HexDataRequest\<close> declares \<^verbatim>\<open>type\<close> with
  \<^verbatim>\<open>@abstractmethod\<close> above \<^verbatim>\<open>@staticmethod\<close>. It is the first statement of the
  module that can raise, and an exception there ends the import of the module.
\<close>

definition HexDataRequest_type :: "error + descriptor" where
  "HexDataRequest_type =
     decorate abstractmethod (decorate staticmethod (Inr (PyFunction False)))"

definition import_hex_protocol :: "error option" where
  "import_hex_protocol = (case HexDataRequest_type of Inl e \<Rightarrow> Some e | Inr f \<Rightarrow> None)"

text \<open>
  The request classes. Each instance holds the one field of \<^verbatim>\<open>HexDataRequest\<close>, the
  optional payload. The definitions from here to the constructors are the bodies of the
  methods; a program reaches them through the module, after its import.
\<close>

datatype HexDataRequest =
    PingRequest "byte list option"
  | AppVersionRequest "byte list option"
  | ProductIdRequest "byte list option"
  | RestartRequest "byte list option"
  | GetRequest "byte list option"
  | SetRequest "byte list option"
  | AsyncRequest "byte list option"

fun payload :: "HexDataRequest \<Rightarrow> byte list option" where
  "payload (PingRequest pl) = pl"
| "payload (AppVersionRequest pl) = pl"
| "payload (ProductIdRequest pl) = pl"
| "payload (RestartRequest pl) = pl"
| "payload (GetRequest pl) = pl"
| "payload (SetRequest pl) = pl"
| "payload (AsyncRequest pl) = pl"

text \<open>The static method \<^verbatim>\<open>type()\<close> of each class.\<close>

fun request_type :: "HexDataRequest \<Rightarrow> HexRequestType" where
  "request_type (PingRequest pl) = PING"
| "request_type (AppVersionRequest pl) = APP_VERSION"
| "request_type (ProductIdRequest pl) = PRODUCT_ID"
| "request_type (RestartRequest pl) = RESTART"
| "request_type (GetRequest pl) = GET"
| "request_type (SetRequest pl) = SET"
| "request_type (AsyncRequest pl) = ASYNC"

text \<open>
  \<^verbatim>\<open>bytes.hex()\<close> gives two lowercase hexadecimal digits per byte, the high nibble first;
  \<^verbatim>\<open>str.encode('ascii')\<close> gives the bytes of a string of code points below 128 (and raises
  otherwise, which digits never do: \<open>None\<close>); \<^verbatim>\<open>bytes.upper()\<close> maps the ASCII letters a to z
  to A to Z.
\<close>

definition hex_digit :: "nat \<Rightarrow> nat" where
  "hex_digit n = (if n < 10 then 48 + n else 87 + n)"

definition hex :: "byte list \<Rightarrow> str" where
  "hex bs = concat (map (\<lambda>b. [hex_digit (unat b div 16), hex_digit (unat b mod 16)]) bs)"

definition encode_ascii :: "str \<Rightarrow> byte list option" where
  "encode_ascii s = (if list_all (\<lambda>c. c < 128) s then Some (map of_nat s) else None)"

definition upper :: "byte list \<Rightarrow> byte list" where
  "upper bs = map (\<lambda>b. if 97 \<le> b \<and> b \<le> 122 then b - 32 else b) bs"

text \<open>
  \<^verbatim>\<open>HexDataRequest.serialize\<close>. The slice assignment \<^verbatim>\<open>buf[2:] = ...\<close> replaces everything
  from index 2 on.
\<close>

definition serialize :: "HexDataRequest \<Rightarrow> byte list option" where
  "serialize r =
     (let payload_len = (case payload r of Some pl \<Rightarrow> length pl | None \<Rightarrow> 0);
          buf = replicate (2 + payload_len * 2) (0 :: byte);
          buf = buf[0 := COLON];
          buf = buf[1 := type_value (request_type r)]
      in case payload r of
           Some pl \<Rightarrow>
             if payload_len > 0
             then map_option (\<lambda>h. take 2 buf @ upper h) (encode_ascii (hex pl))
             else Some buf
         | None \<Rightarrow> Some buf)"

text \<open>
  \<^verbatim>\<open>int.to_bytes(2, 'little')\<close>: the two bytes of an integer in 0..65535, low byte first;
  \<^verbatim>\<open>OverflowError\<close> (\<open>None\<close>) for any other integer.
\<close>

definition to_bytes_2_little :: "int \<Rightarrow> byte list option" where
  "to_bytes_2_little n =
     (if 0 \<le> n \<and> n < 65536 then Some [of_int (n mod 256), of_int (n div 256)] else None)"

text \<open>The static constructors.\<close>

definition ping_request :: HexDataRequest where
  "ping_request = PingRequest None"

definition app_version_request :: HexDataRequest where
  "app_version_request = AppVersionRequest None"

definition product_id_request :: HexDataRequest where
  "product_id_request = ProductIdRequest None"

definition restart_request :: HexDataRequest where
  "restart_request = RestartRequest None"

definition get_request :: "int \<Rightarrow> HexDataRequest option" where
  "get_request value_id =
     map_option (\<lambda>i. GetRequest (Some (i @ [0]))) (to_bytes_2_little value_id)"

definition set_request :: "int \<Rightarrow> byte list \<Rightarrow> HexDataRequest option" where
  "set_request value_id val =
     (let buf = replicate (2 + 1 + length val) (0 :: byte) in
      map_option (\<lambda>i. SetRequest (Some (take 3 (i @ drop 2 buf) @ val)))
        (to_bytes_2_little value_id))"

definition async_request :: "int \<Rightarrow> byte list \<Rightarrow> HexDataRequest option" where
  "async_request value_id val =
     (let buf = replicate (2 + 1 + length val) (0 :: byte) in
      map_option (\<lambda>i. SetRequest (Some (take 3 (i @ drop 2 buf) @ val)))
        (to_bytes_2_little value_id))"

text \<open>
  The expression \<^verbatim>\<open>HexDataRequest.get_request(value_id).serialize()\<close> in a program that
  imports the module: the import first, then the two bodies, each exception as a value.
\<close>

definition get_request_serialize :: "int \<Rightarrow> error + byte list" where
  "get_request_serialize value_id =
     (case import_hex_protocol of
        Some e \<Rightarrow> Inl e
      | None \<Rightarrow>
          (case get_request value_id of
             None \<Rightarrow> Inl OverflowError
           | Some r \<Rightarrow>
               (case serialize r of
                  None \<Rightarrow> Inl UnicodeEncodeError
                | Some bs \<Rightarrow> Inr bs)))"

section \<open>The sample frame of the unit test\<close>

definition MPPT_SAMPLE :: "byte list" where
  "MPPT_SAMPLE =
     CR # NL # bytes_of ''PID'' @ TAB # bytes_of ''0xA042'' @
     CR # NL # bytes_of ''FW'' @ TAB # bytes_of ''116'' @
     CR # NL # bytes_of ''SER#'' @ TAB # bytes_of ''HQ1636WR7KW'' @
     CR # NL # bytes_of ''V'' @ TAB # bytes_of ''11020'' @
     CR # NL # bytes_of ''I'' @ TAB # bytes_of ''0'' @
     CR # NL # bytes_of ''VPV'' @ TAB # bytes_of ''12300'' @
     CR # NL # bytes_of ''PPV'' @ TAB # bytes_of ''0'' @
     CR # NL # bytes_of ''CS'' @ TAB # bytes_of ''0'' @
     CR # NL # bytes_of ''ERR'' @ TAB # bytes_of ''0'' @
     CR # NL # bytes_of ''LOAD'' @ TAB # bytes_of ''ON'' @
     CR # NL # bytes_of ''IL'' @ TAB # bytes_of ''0'' @
     CR # NL # bytes_of ''H19'' @ TAB # bytes_of ''327'' @
     CR # NL # bytes_of ''H20'' @ TAB # bytes_of ''0'' @
     CR # NL # bytes_of ''H21'' @ TAB # bytes_of ''0'' @
     CR # NL # bytes_of ''H22'' @ TAB # bytes_of ''0'' @
     CR # NL # bytes_of ''H23'' @ TAB # bytes_of ''0'' @
     CR # NL # bytes_of ''HSDS'' @ TAB # bytes_of ''35'' @
     CR # NL # bytes_of ''Checksum'' @ TAB # bytes_of ''r''"

definition MPPT_SAMPLE_FIELDS :: "Event list" where
  "MPPT_SAMPLE_FIELDS =
     [TextEvent (str_of ''PID'') (str_of ''0xA042''),
      TextEvent (str_of ''FW'') (str_of ''116''),
      TextEvent (str_of ''SER#'') (str_of ''HQ1636WR7KW''),
      TextEvent (str_of ''V'') (str_of ''11020''),
      TextEvent (str_of ''I'') (str_of ''0''),
      TextEvent (str_of ''VPV'') (str_of ''12300''),
      TextEvent (str_of ''PPV'') (str_of ''0''),
      TextEvent (str_of ''CS'') (str_of ''0''),
      TextEvent (str_of ''ERR'') (str_of ''0''),
      TextEvent (str_of ''LOAD'') (str_of ''ON''),
      TextEvent (str_of ''IL'') (str_of ''0''),
      TextEvent (str_of ''H19'') (str_of ''327''),
      TextEvent (str_of ''H20'') (str_of ''0''),
      TextEvent (str_of ''H21'') (str_of ''0''),
      TextEvent (str_of ''H22'') (str_of ''0''),
      TextEvent (str_of ''H23'') (str_of ''0''),
      TextEvent (str_of ''HSDS'') (str_of ''35''),
      FrameEndEvent True]"

section \<open>Properties of the loop\<close>

lemmas step_defs = step_def dispatch_def accumulate_def hex_switch_def Let_def

lemma receive_bytes_append:
  "receive_bytes p (xs @ ys) =
     (case receive_bytes p xs of
        (evs, p', Some e) \<Rightarrow> (evs, p', Some e)
      | (evs, p', None) \<Rightarrow>
          (case receive_bytes p' ys of (evs', p'', r) \<Rightarrow> (evs @ evs', p'', r)))"
  by (induction xs arbitrary: p) (auto split: prod.splits option.splits)

lemma receive_bytes_snoc:
  "receive_bytes p xs = (evs, p', None) \<Longrightarrow> step p' b = (evs', p'', r) \<Longrightarrow>
   receive_bytes p (xs @ [b]) = (evs @ evs', p'', r)"
  by (cases r) (simp_all add: receive_bytes_append)

lemma receive_bytes_snoc_None:
  assumes "receive_bytes p (xs @ [b]) = (evs, p'', None)"
  obtains evs0 p' evs1 where "receive_bytes p xs = (evs0, p', None)"
    and "step p' b = (evs1, p'', None)" and "evs = evs0 @ evs1"
  using assms
  by (auto simp: receive_bytes_append split: prod.splits option.splits)

lemma receive_bytes_Cons_None:
  assumes "receive_bytes p (b # bs) = (evs, p'', None)"
  obtains evs0 p' evs1 where "step p b = (evs0, p', None)"
    and "receive_bytes p' bs = (evs1, p'', None)" and "evs = evs0 @ evs1"
  using assms
  by (auto split: prod.splits option.splits)

lemma step_hex_absorbing:
  "state p = RECORD_HEX \<Longrightarrow> step p b = (evs, p', r) \<Longrightarrow> state p' = RECORD_HEX"
  by (auto simp: step_defs split: if_splits)

lemma run_hex_absorbing:
  "state p = RECORD_HEX \<Longrightarrow> receive_bytes p bs = (evs, p', r) \<Longrightarrow> state p' = RECORD_HEX"
proof (induction bs arbitrary: p evs p' r)
  case Nil
  then show ?case by simp
next
  case (Cons b bs)
  obtain e1 p1 r1 where s: "step p b = (e1, p1, r1)" by (cases "step p b") auto
  have h1: "state p1 = RECORD_HEX" using step_hex_absorbing [OF Cons.prems(1) s] .
  show ?case
  proof (cases r1)
    case None
    obtain e2 p2 r2 where t: "receive_bytes p1 bs = (e2, p2, r2)"
      by (cases "receive_bytes p1 bs") auto
    from Cons.prems(2) s None t have "p' = p2" by simp
    with Cons.IH [OF h1 t] show ?thesis by simp
  next
    case (Some e)
    with Cons.prems(2) s have "p' = p1" by simp
    with h1 show ?thesis by simp
  qed
qed

lemma step_frame_end:
  "step p b = (evs, p', r) \<Longrightarrow> FrameEndEvent v \<in> set evs \<Longrightarrow>
   state p = CHECKSUM \<and> evs = [FrameEndEvent ((checksum p + uint b) mod 256 = 0)] \<and> r = None
   \<and> p' = p\<lparr>checksum := 0, state := IDLE\<rparr>"
  by (cases "state p") (auto simp: step_defs split: if_splits option.splits)

lemma step_in_checksum:
  "state p = CHECKSUM \<Longrightarrow>
   step p b = ([FrameEndEvent ((checksum p + uint b) mod 256 = 0)],
               p\<lparr>checksum := 0, state := IDLE\<rparr>, None)"
  by (simp add: step_defs)

lemma step_to_checksum:
  "step p b = (evs, p', r) \<Longrightarrow> state p' = CHECKSUM \<Longrightarrow>
   state p = RECORD_LABEL \<and> b = TAB \<and> take (current_index p) (label_buf p) = Checksum_label"
  by (cases "state p") (auto simp: step_defs split: if_splits option.splits)

lemma step_hex_event:
  "step p b = (evs, p', r) \<Longrightarrow> HexEvent h \<in> set evs \<Longrightarrow> state p' = RECORD_HEX"
  by (cases "state p") (auto simp: step_defs split: if_splits option.splits)

lemma step_not_hex:
  "step p b = (evs, p', r) \<Longrightarrow> state p' \<noteq> RECORD_HEX \<Longrightarrow>
   state (hex_switch p b) \<noteq> RECORD_HEX"
  by (cases "state p") (auto simp: step_defs split: if_splits option.splits)

lemma step_checksum_eligible:
  "step p b = (evs, p', r) \<Longrightarrow> \<forall>e \<in> set evs. \<not> is_frame_end e \<Longrightarrow>
   checksum p' = checksum p + (if state (hex_switch p b) \<noteq> RECORD_HEX then uint b else 0)"
  by (cases "state p") (auto simp: step_defs is_frame_end_def split: if_splits option.splits)

lemma run_checksum:
  "receive_bytes p bs = (evs, p', None) \<Longrightarrow> \<forall>e \<in> set evs. \<not> is_frame_end e \<Longrightarrow>
   checksum p' = checksum p + sum_list (map uint (eligible p bs))"
proof (induction bs arbitrary: p evs)
  case Nil
  then show ?case by simp
next
  case (Cons b bs)
  from Cons.prems(1) obtain e1 p1 e2 where s: "step p b = (e1, p1, None)"
    and t: "receive_bytes p1 bs = (e2, p', None)" and e: "evs = e1 @ e2"
    by (rule receive_bytes_Cons_None)
  from Cons.prems(2) e have n1: "\<forall>e \<in> set e1. \<not> is_frame_end e"
    and n2: "\<forall>e \<in> set e2. \<not> is_frame_end e" by auto
  have "checksum p' = checksum p1 + sum_list (map uint (eligible p1 bs))"
    using Cons.IH [OF t n2] .
  moreover have "checksum p1 =
      checksum p + (if state (hex_switch p b) \<noteq> RECORD_HEX then uint b else 0)"
    using step_checksum_eligible [OF s n1] .
  ultimately show ?case using s by simp
qed

lemma run_eligible_all:
  "receive_bytes p bs = (evs, p', None) \<Longrightarrow> state p' \<noteq> RECORD_HEX \<Longrightarrow> eligible p bs = bs"
proof (induction bs arbitrary: p evs)
  case Nil
  then show ?case by simp
next
  case (Cons b bs)
  from Cons.prems(1) obtain e1 p1 e2 where s: "step p b = (e1, p1, None)"
    and t: "receive_bytes p1 bs = (e2, p', None)" and e: "evs = e1 @ e2"
    by (rule receive_bytes_Cons_None)
  have "state p1 \<noteq> RECORD_HEX" using run_hex_absorbing [OF _ t] Cons.prems(2) by blast
  then have "state (hex_switch p b) \<noteq> RECORD_HEX" using step_not_hex [OF s] by blast
  moreover have "eligible p1 bs = bs" using Cons.IH [OF t Cons.prems(2)] .
  ultimately show ?case using s by simp
qed

lemma run_no_hex_event:
  "receive_bytes p bs = (evs, p', r) \<Longrightarrow> state p' \<noteq> RECORD_HEX \<Longrightarrow>
   \<forall>e \<in> set evs. \<forall>h. e \<noteq> HexEvent h"
proof (induction bs arbitrary: p evs p' r)
  case Nil
  then show ?case by simp
next
  case (Cons b bs)
  obtain e1 p1 r1 where s: "step p b = (e1, p1, r1)" by (cases "step p b") auto
  show ?case
  proof (cases r1)
    case None
    obtain e2 p2 r2 where t: "receive_bytes p1 bs = (e2, p2, r2)"
      by (cases "receive_bytes p1 bs") auto
    from Cons.prems(1) s None t have eq: "evs = e1 @ e2" "p' = p2" by simp_all
    have a: "\<forall>e \<in> set e2. \<forall>h. e \<noteq> HexEvent h"
      using Cons.IH [OF t] Cons.prems(2) eq by simp
    have "state p1 \<noteq> RECORD_HEX"
      using run_hex_absorbing [OF _ t] Cons.prems(2) eq by blast
    then have "\<forall>e \<in> set e1. \<forall>h. e \<noteq> HexEvent h"
      using step_hex_event [OF s] by blast
    with a eq show ?thesis by auto
  next
    case (Some x)
    with Cons.prems(1) s have eq: "evs = e1" "p' = p1" by simp_all
    then show ?thesis using step_hex_event [OF s] Cons.prems(2) by blast
  qed
qed

lemma step_hex_buf_length:
  "step p b = (evs, p', r) \<Longrightarrow> length (hex_buf p') = length (hex_buf p)"
  by (cases "state p") (auto simp: step_defs split: if_splits option.splits)

lemma run_hex_buf_length:
  "receive_bytes p bs = (evs, p', r) \<Longrightarrow> length (hex_buf p') = length (hex_buf p)"
proof (induction bs arbitrary: p evs p' r)
  case Nil
  then show ?case by simp
next
  case (Cons b bs)
  obtain e1 p1 r1 where s: "step p b = (e1, p1, r1)" by (cases "step p b") auto
  note l = step_hex_buf_length [OF s]
  show ?case
  proof (cases r1)
    case None
    obtain e2 p2 r2 where t: "receive_bytes p1 bs = (e2, p2, r2)"
      by (cases "receive_bytes p1 bs") auto
    from Cons.prems s None t have "p' = p2" by simp
    with Cons.IH [OF t] l show ?thesis by simp
  next
    case (Some x)
    with Cons.prems s have "p' = p1" by simp
    with l show ?thesis by simp
  qed
qed

lemma step_colon:
  "state p \<noteq> CHECKSUM \<Longrightarrow>
   step p COLON = ([], p\<lparr>current_index := 0, state := RECORD_HEX\<rparr>, None)"
  by (simp add: step_defs)

lemma step_hex_newline:
  "state p = RECORD_HEX \<Longrightarrow>
   step p NL = ([HexEvent (take (current_index p) (hex_buf p))], p, None)"
  by (simp add: step_defs)

lemma step_hex_store:
  "state p = RECORD_HEX \<Longrightarrow> b \<noteq> COLON \<Longrightarrow> b \<noteq> NL \<Longrightarrow>
   current_index p < length (hex_buf p) \<Longrightarrow>
   step p b = ([], p\<lparr>hex_buf := (hex_buf p)[current_index p := b],
                     current_index := current_index p + 1\<rparr>, None)"
  by (simp add: step_defs)

lemma hex_capture:
  "state p = RECORD_HEX \<Longrightarrow> COLON \<notin> set bs \<Longrightarrow> NL \<notin> set bs \<Longrightarrow>
   current_index p + length bs \<le> length (hex_buf p) \<Longrightarrow>
   \<exists>p'. receive_bytes p bs = ([], p', None) \<and> state p' = RECORD_HEX
      \<and> current_index p' = current_index p + length bs
      \<and> take (current_index p') (hex_buf p') = take (current_index p) (hex_buf p) @ bs"
proof (induction bs arbitrary: p)
  case Nil
  then show ?case by simp
next
  case (Cons b bs)
  let ?q = "p\<lparr>hex_buf := (hex_buf p)[current_index p := b],
              current_index := current_index p + 1\<rparr>"
  from Cons.prems have lt: "current_index p < length (hex_buf p)" by simp
  from Cons.prems have s: "step p b = ([], ?q, None)"
    by (intro step_hex_store) (use lt in auto)
  have q1: "state ?q = RECORD_HEX" using Cons.prems(1) by simp
  have q2: "current_index ?q + length bs \<le> length (hex_buf ?q)" using Cons.prems(4) by simp
  from Cons.prems have q3: "COLON \<notin> set bs" "NL \<notin> set bs" by auto
  from Cons.IH [OF q1 q3 q2] obtain p' where
    r: "receive_bytes ?q bs = ([], p', None)" and st: "state p' = RECORD_HEX"
    and ci: "current_index p' = current_index ?q + length bs"
    and tk: "take (current_index p') (hex_buf p') = take (current_index ?q) (hex_buf ?q) @ bs"
    by blast
  have "take (current_index ?q) (hex_buf ?q) = take (current_index p) (hex_buf p) @ [b]"
    using lt by (simp add: take_Suc_conv_app_nth)
  with tk have "take (current_index p') (hex_buf p') = take (current_index p) (hex_buf p) @ b # bs"
    by simp
  moreover have "receive_bytes p (b # bs) = ([], p', None)" using s r by simp
  ultimately show ?case using st ci by simp
qed

section \<open>The claims\<close>



text \<open>
  Claim C2. Feeding an input in consecutive chunks, however it is split, gives the same
  events, the same parser and the same exception, if any, as one call on the whole input.
\<close>

theorem streaming_invariant:
  "feed_chunks p cs = receive_bytes p (concat cs)"
  by (induction cs arbitrary: p) (auto simp: receive_bytes_append split: prod.splits option.splits)

text \<open>
  Claim C3. The claim is that \<^verbatim>\<open>receive_bytes\<close> never raises. The code does: the tenth
  byte of a label is stored beyond the label buffer, and so are the 34th byte of a value
  and the 101st byte of a hex record beyond theirs. The same happens in the frame after
  a complete one, because the index is left at 8 when the checksum label is recognised
  and is not reset on the way through IDLE, so the second byte of the next label is the
  tenth of the buffer.
\<close>

theorem label_overflow_raises:
  "raised (receive_bytes new_parser (NL # bytes_of ''ABCDEFGHIJ'')) = Some IndexError
   \<and> raised (receive_bytes new_parser (NL # bytes_of ''V'' @ TAB # replicate 34 48))
       = Some IndexError
   \<and> raised (receive_bytes new_parser (COLON # replicate 101 48)) = Some IndexError
   \<and> raised (receive_bytes new_parser
        (NL # bytes_of ''Checksum'' @ [TAB, 186] @ NL # bytes_of ''PID'')) = Some IndexError"
  by code_simp

text \<open>
  Claim C4. When a colon arrives while a fresh parser's run is in \<open>RECORD_LABEL\<close> or
  \<open>RECORD_VALUE\<close>, it yields no event, sets the index to 0 and the state to \<open>RECORD_HEX\<close> and
  changes nothing else. If at most \<open>MAX_HEX_RECORD_LEN\<close> bytes, none of them a colon or
  a newline, and then a newline follow, the events of the whole input are those before
  the colon and one hex event that holds exactly the bytes between the colon and the
  newline, and nothing is raised.
\<close>

theorem hex_preemption:
  assumes "raised (receive_bytes new_parser pre) = None"
    and "state (parser_of (receive_bytes new_parser pre)) = RECORD_LABEL
         \<or> state (parser_of (receive_bytes new_parser pre)) = RECORD_VALUE"
    and "COLON \<notin> set bs" and "NL \<notin> set bs" and "length bs \<le> MAX_HEX_RECORD_LEN"
  shows "receive_bytes new_parser (pre @ [COLON])
           = (events_of (receive_bytes new_parser pre),
              (parser_of (receive_bytes new_parser pre))\<lparr>current_index := 0, state := RECORD_HEX\<rparr>,
              None)
       \<and> events_of (receive_bytes new_parser (pre @ COLON # bs @ [NL]))
           = events_of (receive_bytes new_parser pre) @ [HexEvent bs]
       \<and> raised (receive_bytes new_parser (pre @ COLON # bs @ [NL])) = None"
proof -
  obtain evs p r where run: "receive_bytes new_parser pre = (evs, p, r)"
    by (cases "receive_bytes new_parser pre") auto
  with assms(1) have run: "receive_bytes new_parser pre = (evs, p, None)"
    by (simp add: raised_def)
  from run assms(2) have sp: "state p \<noteq> CHECKSUM" by (auto simp: parser_of_def)
  let ?q = "p\<lparr>current_index := 0, state := RECORD_HEX\<rparr>"
  have c: "receive_bytes new_parser (pre @ [COLON]) = (evs, ?q, None)"
    using receive_bytes_snoc [OF run step_colon [OF sp]] by simp
  have "length (hex_buf p) = MAX_HEX_RECORD_LEN"
    using run_hex_buf_length [OF run] by (simp add: new_parser_def)
  with assms(5) have le: "current_index ?q + length bs \<le> length (hex_buf ?q)" by simp
  have "state ?q = RECORD_HEX" by simp
  from hex_capture [OF this assms(3,4) le] obtain p' where
    r: "receive_bytes ?q bs = ([], p', None)" and st: "state p' = RECORD_HEX"
    and tk: "take (current_index p') (hex_buf p') = bs"
    by auto
  have "receive_bytes new_parser ((pre @ [COLON]) @ bs) = (evs, p', None)"
    using c r by (simp add: receive_bytes_append del: append_assoc)
  from receive_bytes_snoc [OF this step_hex_newline [OF st]]
  have "receive_bytes new_parser (pre @ COLON # bs @ [NL]) = (evs @ [HexEvent bs], p', None)"
    using tk by simp
  with c run show ?thesis by (simp add: events_of_def parser_of_def raised_def)
qed

theorem hex_preemption_witness:
  "events_of (receive_bytes new_parser (NL # bytes_of ''PI'' @ COLON # bytes_of ''7F0ED00'' @ [NL]))
     = [HexEvent (bytes_of ''7F0ED00'')]"
proof -
  have h1: "raised (receive_bytes new_parser (NL # bytes_of ''PI'')) = None" by code_simp
  have h2: "state (parser_of (receive_bytes new_parser (NL # bytes_of ''PI''))) = RECORD_LABEL
         \<or> state (parser_of (receive_bytes new_parser (NL # bytes_of ''PI''))) = RECORD_VALUE"
    by code_simp
  have h3: "COLON \<notin> set (bytes_of ''7F0ED00'')" by code_simp
  have h4: "NL \<notin> set (bytes_of ''7F0ED00'')" by code_simp
  have h5: "length (bytes_of ''7F0ED00'') \<le> MAX_HEX_RECORD_LEN" by code_simp
  have h6: "events_of (receive_bytes new_parser (NL # bytes_of ''PI'')) = []" by code_simp
  from hex_preemption [OF h1 h2 h3 h4 h5] h6 show ?thesis by simp
qed

text \<open>
  Claim C5. The claim is that after the newline of a hex message the parser treats other
  bytes as in IDLE. The code stays in \<open>RECORD_HEX\<close> and keeps the index: the byte after
  the newline is appended to the hex buffer, and the next newline yields a second hex
  event that holds the first message and the new byte.
\<close>

theorem hex_state_never_left:
  "events_of (receive_bytes new_parser (COLON # bytes_of ''A'' @ NL # bytes_of ''B'' @ [NL]))
     = [HexEvent (bytes_of ''A''), HexEvent (bytes_of ''AB'')]
   \<and> state (parser_of (receive_bytes new_parser (COLON # bytes_of ''A'' @ [NL]))) = RECORD_HEX"
  by code_simp

text \<open>
  Claim C6. The claim is that an async request serializes with the tag \<open>A\<close>. The
  constructor \<^verbatim>\<open>async_request\<close> builds a \<^verbatim>\<open>SetRequest\<close>, so the tag is \<open>8\<close>; an
  \<^verbatim>\<open>AsyncRequest\<close> with the same payload would serialize with \<open>A\<close>.
\<close>

theorem async_request_is_set_request:
  "Option.bind (async_request 256 []) serialize = Some (bytes_of '':8000100'')
   \<and> serialize (AsyncRequest (Some [0, 1, 0])) = Some (bytes_of '':A000100'')"
  by code_simp

text \<open>
  Claim C7. The claim is that serializing the get request for register 0x0100 gives
  exactly the bytes \<open>:7000100\<close>. In the program it gives nothing: the class statement of
  \<^verbatim>\<open>HexDataRequest\<close> applies \<^verbatim>\<open>abstractmethod\<close> over \<^verbatim>\<open>staticmethod\<close> and raises
  \<^verbatim>\<open>AttributeError\<close>, so the import of the module fails and the call is never reached.
  The class \<^verbatim>\<open>Event\<close> of the decoder has the two decorators in the order that works.
  The bodies of \<^verbatim>\<open>get_request\<close> and \<^verbatim>\<open>serialize\<close>, taken alone, build the payload
  00 01 00 and exactly the eight bytes of the claim, with nothing after them.
\<close>

theorem get_request_import_raises:
  "get_request_serialize 256 = Inl AttributeError
   \<and> import_hex_protocol = Some AttributeError
   \<and> HexDataRequest_type = Inl AttributeError
   \<and> Event_type = Inr (StaticMethod (PyFunction True))
   \<and> Option.bind (get_request 256) serialize = Some (bytes_of '':7000100'')
   \<and> Option.bind (get_request 256) payload = Some [0, 1, 0]"
  by code_simp

text \<open>
  Claim C8. The sample frame of the unit test, fed to a fresh parser, yields exactly the
  seventeen text events and the valid frame end the test expects, and raises nothing.
\<close>

theorem sample_frame:
  "events_of (receive_bytes new_parser MPPT_SAMPLE) = MPPT_SAMPLE_FIELDS
   \<and> raised (receive_bytes new_parser MPPT_SAMPLE) = None"
  by code_simp

text \<open>
  Claim C9. Whenever a byte makes a fresh parser's run yield a frame end, the parser was in
  the CHECKSUM state; it entered that state on the byte just before, a tab received in
  \<open>RECORD_LABEL\<close> with the label buffer up to the index equal to \<open>Checksum\<close>; every
  event before the frame end is a text event or an earlier frame end, never a hex event;
  and the frame end is the only event of that byte.
\<close>

theorem frame_end_follows_checksum_label:
  assumes "raised (receive_bytes new_parser pre) = None"
    and "FrameEndEvent valid \<in> set (events_of (step (parser_of (receive_bytes new_parser pre)) b))"
  shows "state (parser_of (receive_bytes new_parser pre)) = CHECKSUM
       \<and> (\<exists>pre0. pre = pre0 @ [TAB]
             \<and> raised (receive_bytes new_parser pre0) = None
             \<and> state (parser_of (receive_bytes new_parser pre0)) = RECORD_LABEL
             \<and> take (current_index (parser_of (receive_bytes new_parser pre0)))
                    (label_buf (parser_of (receive_bytes new_parser pre0))) = Checksum_label
             \<and> events_of (receive_bytes new_parser pre0) = events_of (receive_bytes new_parser pre))
       \<and> (\<forall>e \<in> set (events_of (receive_bytes new_parser pre)). is_text e \<or> is_frame_end e)
       \<and> events_of (step (parser_of (receive_bytes new_parser pre)) b) = [FrameEndEvent valid]"
proof -
  obtain evs p r where run: "receive_bytes new_parser pre = (evs, p, r)"
    by (cases "receive_bytes new_parser pre") auto
  with assms(1) have run: "receive_bytes new_parser pre = (evs, p, None)"
    by (simp add: raised_def)
  obtain evs' p' r' where st: "step p b = (evs', p', r')" by (cases "step p b") auto
  with run assms(2) have fe: "FrameEndEvent valid \<in> set evs'"
    by (simp add: events_of_def parser_of_def)
  note F = step_frame_end [OF st fe]
  from F have cs: "state p = CHECKSUM" by simp
  from F fe have ev: "evs' = [FrameEndEvent valid]" by auto
  have "pre \<noteq> []" using run cs by (auto simp: new_parser_def)
  then obtain pre0 c where pre: "pre = pre0 @ [c]" by (metis rev_exhaust)
  from run [unfolded pre] obtain evs0 p0 evs1 where
    r0: "receive_bytes new_parser pre0 = (evs0, p0, None)"
    and s0: "step p0 c = (evs1, p, None)" and e0: "evs = evs0 @ evs1"
    by (rule receive_bytes_snoc_None)
  note T = step_to_checksum [OF s0 cs]
  have "evs1 = []" using s0 T by (auto simp: step_defs split: if_splits)
  with e0 have e0: "evs0 = evs" by simp
  have nh: "\<forall>e \<in> set evs. \<forall>h. e \<noteq> HexEvent h"
    using run_no_hex_event [OF run] cs by simp
  have tf: "\<forall>e \<in> set evs. is_text e \<or> is_frame_end e"
  proof
    fix e assume "e \<in> set evs"
    with nh show "is_text e \<or> is_frame_end e"
      by (cases e) (auto simp: is_text_def is_frame_end_def)
  qed
  have ex: "\<exists>pre0. pre = pre0 @ [TAB]
             \<and> raised (receive_bytes new_parser pre0) = None
             \<and> state (parser_of (receive_bytes new_parser pre0)) = RECORD_LABEL
             \<and> take (current_index (parser_of (receive_bytes new_parser pre0)))
                    (label_buf (parser_of (receive_bytes new_parser pre0))) = Checksum_label
             \<and> events_of (receive_bytes new_parser pre0) = evs"
    using pre r0 T e0 by (intro exI [of _ pre0]) (simp add: raised_def parser_of_def events_of_def)
  show ?thesis using cs ex tf ev run st
    by (simp add: events_of_def parser_of_def)
qed

theorem frame_end_follows_checksum_label_witness:
  "state (parser_of (receive_bytes new_parser (NL # bytes_of ''Checksum'' @ [TAB]))) = CHECKSUM
   \<and> events_of (step (parser_of (receive_bytes new_parser (NL # bytes_of ''Checksum'' @ [TAB]))) 186)
       = [FrameEndEvent True]"
proof -
  have h1: "raised (receive_bytes new_parser (NL # bytes_of ''Checksum'' @ [TAB])) = None"
    by code_simp
  have h2: "FrameEndEvent True \<in> set (events_of (step (parser_of
      (receive_bytes new_parser (NL # bytes_of ''Checksum'' @ [TAB]))) 186))"
    by code_simp
  from frame_end_follows_checksum_label [OF h1 h2] show ?thesis by simp
qed

text \<open>
  Claim C10. A byte other than newline, carriage return and colon received in IDLE yields
  no event and changes only the checksum, to which it is added. So it counts in the flag
  of the next frame end: if the bytes \<open>bs\<close> after it raise nothing and yield no frame
  end, and the byte \<open>c\<close> after them yields one, its flag tells whether the checksum before
  the garbage byte, that byte, \<open>bs\<close> and \<open>c\<close> sum to 0 modulo 256.
\<close>

theorem idle_garbage:
  assumes "state p = IDLE" and "b \<noteq> NL" and "b \<noteq> CR" and "b \<noteq> COLON"
  shows "step p b = ([], p\<lparr>checksum := checksum p + uint b\<rparr>, None)
       \<and> (\<forall>bs c valid.
            raised (receive_bytes (parser_of (step p b)) bs) = None
            \<and> (\<forall>e \<in> set (events_of (receive_bytes (parser_of (step p b)) bs)). \<not> is_frame_end e)
            \<and> FrameEndEvent valid
                 \<in> set (events_of (step (parser_of (receive_bytes (parser_of (step p b)) bs)) c))
            \<longrightarrow> valid = ((checksum p + uint b + sum_list (map uint (bs @ [c]))) mod 256 = 0))"
proof (intro conjI allI impI)
  show s: "step p b = ([], p\<lparr>checksum := checksum p + uint b\<rparr>, None)"
    using assms by (simp add: step_defs)
  fix bs c valid
  let ?q = "parser_of (step p b)"
  assume a: "raised (receive_bytes ?q bs) = None
            \<and> (\<forall>e \<in> set (events_of (receive_bytes ?q bs)). \<not> is_frame_end e)
            \<and> FrameEndEvent valid \<in> set (events_of (step (parser_of (receive_bytes ?q bs)) c))"
  obtain evs p1 r where "receive_bytes ?q bs = (evs, p1, r)"
    by (cases "receive_bytes ?q bs") auto
  with a have run: "receive_bytes ?q bs = (evs, p1, None)"
    and nf: "\<forall>e \<in> set evs. \<not> is_frame_end e"
    and fe: "FrameEndEvent valid \<in> set (events_of (step p1 c))"
    by (simp_all add: raised_def events_of_def parser_of_def)
  obtain evs' p' r' where st: "step p1 c = (evs', p', r')" by (cases "step p1 c") auto
  with fe have fe: "FrameEndEvent valid \<in> set evs'" by (simp add: events_of_def)
  note F = step_frame_end [OF st fe]
  from F fe have v: "valid = ((checksum p1 + uint c) mod 256 = 0)" by auto
  have "state p1 \<noteq> RECORD_HEX" using F by simp
  then have "eligible ?q bs = bs" using run_eligible_all [OF run] by simp
  then have "checksum p1 = checksum ?q + sum_list (map uint bs)"
    using run_checksum [OF run nf] by simp
  moreover have "checksum ?q = checksum p + uint b" using s by (simp add: parser_of_def)
  ultimately show "valid = ((checksum p + uint b + sum_list (map uint (bs @ [c]))) mod 256 = 0)"
    using v by (simp add: add.assoc)
qed

theorem idle_garbage_witness:
  "step new_parser 65 = ([], new_parser\<lparr>checksum := checksum new_parser + uint (65 :: byte)\<rparr>, None)
   \<and> False = ((checksum new_parser + uint (65 :: byte)
                + sum_list (map uint ((NL # bytes_of ''Checksum'' @ [TAB]) @ [186]))) mod 256 = 0)"
proof -
  have h1: "state new_parser = IDLE" by code_simp
  have h2: "(65 :: byte) \<noteq> NL" "(65 :: byte) \<noteq> CR" "(65 :: byte) \<noteq> COLON" by simp_all
  have h3: "raised (receive_bytes (parser_of (step new_parser 65))
                (NL # bytes_of ''Checksum'' @ [TAB])) = None
          \<and> (\<forall>e \<in> set (events_of (receive_bytes (parser_of (step new_parser 65))
                (NL # bytes_of ''Checksum'' @ [TAB]))). \<not> is_frame_end e)
          \<and> FrameEndEvent False
               \<in> set (events_of (step (parser_of (receive_bytes (parser_of (step new_parser 65))
                (NL # bytes_of ''Checksum'' @ [TAB]))) 186))"
    by code_simp
  note g = idle_garbage [OF h1 h2]
  from g [THEN conjunct1] g [THEN conjunct2, rule_format, OF h3]
  show ?thesis by (rule conjI)
qed

end
